theory Spec2Isabelle
  imports Main "HOL-Library.Sublist"
begin

section \<open>Configuration\<close>

text \<open>
  The eleven option fields of \<^verbatim>\<open>opt.Flags\<close> (src/opt.go); the root package of
  src/command.go declares the same fields under the name \<^verbatim>\<open>flags\<close>.
  Go's \<^verbatim>\<open>int\<close> is a signed 64-bit integer. The fields are only compared and never
  used in arithmetic, and the two counters of \<^verbatim>\<open>groupArgs\<close> are bounded by the
  number of bytes of the input held in memory, so no operation of the program can
  overflow: the integers are modelled as \<open>int\<close>.
\<close>

record Flags =
  MaxArgs :: int
  MaxLines :: int
  MaxChars :: int
  MaxProcs :: int
  Delimiter :: string
  ReplaceStr :: string
  NullDelim :: bool
  Print :: bool
  Interactive :: bool
  NoRunEmpty :: bool
  Verbose :: bool

section \<open>The batcher: \<^verbatim>\<open>groupArgs\<close> of src/xargs.go\<close>

text \<open>
  The inner loop (lines 151 to 165), started at \<open>j = i\<close>. The list argument is the
  slice \<^verbatim>\<open>inputArgs[j:]\<close>; the result is the list of tokens the loop appends to
  \<^verbatim>\<open>cmdArgs\<close>, so that \<^verbatim>\<open>argsAdded\<close> at the exit is the counter at the entry
  plus the length of the result. A Go string is a byte sequence and \<^verbatim>\<open>len\<close> counts
  bytes, as \<open>length\<close> does on a \<open>string\<close>.
\<close>

fun fillBatch :: "Flags \<Rightarrow> string list \<Rightarrow> int \<Rightarrow> int \<Rightarrow> string list" where
  "fillBatch c [] argsAdded charsUsed = []"
| "fillBatch c (arg # rest) argsAdded charsUsed =
     (if 0 < MaxArgs c \<and> MaxArgs c \<le> argsAdded then []
      else if 0 < MaxChars c \<and> MaxChars c < charsUsed + int (length arg) + 1 then []
      else arg # fillBatch c rest (argsAdded + 1) (charsUsed + int (length arg) + 1))"

text \<open>
  The outer loop (lines 143 to 175). The list argument is the slice
  \<^verbatim>\<open>inputArgs[i:]\<close>, the result is what the remaining iterations append to
  \<^verbatim>\<open>cmdLines\<close>. The recursion is taken only when \<^verbatim>\<open>argsAdded\<close> is not zero
  (line 172), which is what the termination proof rests on.
\<close>

function groupFrom :: "Flags \<Rightarrow> string list \<Rightarrow> string list \<Rightarrow> string list list" where
  "groupFrom c inputArgs baseArgs =
     (if inputArgs = [] then []
      else
        let added = fillBatch c inputArgs 0 0;
            cmdArgs = baseArgs @ added;
            cmdLines = (if length baseArgs < length cmdArgs \<or> \<not> NoRunEmpty c
                        then [cmdArgs] else [])
        in if length added = 0 then cmdLines
           else cmdLines @ groupFrom c (drop (length added) inputArgs) baseArgs)"
  by pat_completeness auto
termination
  by (relation "measure (\<lambda>(c, inputArgs, baseArgs). length inputArgs)") auto

declare groupFrom.simps [simp del]

definition groupArgs :: "Flags \<Rightarrow> string list \<Rightarrow> string list \<Rightarrow> string list list" where
  "groupArgs c inputArgs baseArgs = groupFrom c inputArgs baseArgs"

text \<open>
  The slice of a batch that follows the copied base arguments, and the character
  count of line 164: every token counts its bytes plus one for the separating space.
  \<open>fits\<close> holds of a token that the character limit admits into a fresh batch:
  the test of line 158 with \<^verbatim>\<open>charsUsed\<close> at 0 fails for it.
\<close>

definition inputSlice :: "string list \<Rightarrow> string list \<Rightarrow> string list" where
  "inputSlice baseArgs cmdArgs = drop (length baseArgs) cmdArgs"

definition charCount :: "string list \<Rightarrow> int" where
  "charCount args = sum_list (map (\<lambda>arg. int (length arg) + 1) args)"

definition fits :: "Flags \<Rightarrow> string \<Rightarrow> bool" where
  "fits c arg = (\<not> (0 < MaxChars c \<and> MaxChars c < int (length arg) + 1))"

text \<open>
  The same outer loop with a bound on the number of iterations, \<open>None\<close> when the
  bound is used up before the loop has ended. It states the termination of
  \<^verbatim>\<open>groupArgs\<close> as a theorem: a bound that always suffices.
\<close>

fun groupFuel :: "nat \<Rightarrow> Flags \<Rightarrow> string list \<Rightarrow> string list \<Rightarrow> string list list option" where
  "groupFuel 0 c inputArgs baseArgs = (if inputArgs = [] then Some [] else None)"
| "groupFuel (Suc n) c inputArgs baseArgs =
     (if inputArgs = [] then Some []
      else
        let added = fillBatch c inputArgs 0 0;
            cmdArgs = baseArgs @ added;
            cmdLines = (if length baseArgs < length cmdArgs \<or> \<not> NoRunEmpty c
                        then [cmdArgs] else [])
        in if length added = 0 then Some cmdLines
           else map_option ((@) cmdLines)
                  (groupFuel n c (drop (length added) inputArgs) baseArgs))"

text \<open>
  The option values of a command built by \<^verbatim>\<open>Xargs\<close> with no option given:
  the zero value of each field, then the three defaults of lines 39 to 47.
\<close>

definition defaultFlags :: Flags where
  "defaultFlags = \<lparr> MaxArgs = 256, MaxLines = 0, MaxChars = 4096, MaxProcs = 1,
     Delimiter = [], ReplaceStr = [], NullDelim = False, Print = False,
     Interactive = False, NoRunEmpty = False, Verbose = False \<rparr>"

section \<open>The library functions of package \<^verbatim>\<open>strings\<close> that the program calls\<close>

text \<open>
  A \<open>string\<close> is the byte sequence of the Go string. \<^verbatim>\<open>strings.TrimSpace\<close> and
  \<^verbatim>\<open>strings.Fields\<close> decode it as UTF-8 and take for white space the runes of
  \<^verbatim>\<open>unicode.IsSpace\<close>: the six ASCII ones, U+0085, U+00A0, U+1680, U+2000 to
  U+200A, U+2028, U+2029, U+202F, U+205F and U+3000. \<open>spaceRunes\<close> lists their
  UTF-8 encodings. Each starts with an ASCII byte or a lead byte, never with a
  continuation byte, and the decoder takes more than one byte for a valid encoding
  only: so the rune decoded at a rune boundary is white space exactly when the bytes
  there start with one of the encodings, and the last rune of a string is white space
  exactly when the string ends with one.
\<close>

definition spaceRunes :: "string list" where
  "spaceRunes =
     [[CHR 0x09], [CHR 0x0A], [CHR 0x0B], [CHR 0x0C], [CHR 0x0D], [CHR 0x20],
      [CHR 0xC2, CHR 0x85], [CHR 0xC2, CHR 0xA0],
      [CHR 0xE1, CHR 0x9A, CHR 0x80],
      [CHR 0xE2, CHR 0x80, CHR 0x80], [CHR 0xE2, CHR 0x80, CHR 0x81],
      [CHR 0xE2, CHR 0x80, CHR 0x82], [CHR 0xE2, CHR 0x80, CHR 0x83],
      [CHR 0xE2, CHR 0x80, CHR 0x84], [CHR 0xE2, CHR 0x80, CHR 0x85],
      [CHR 0xE2, CHR 0x80, CHR 0x86], [CHR 0xE2, CHR 0x80, CHR 0x87],
      [CHR 0xE2, CHR 0x80, CHR 0x88], [CHR 0xE2, CHR 0x80, CHR 0x89],
      [CHR 0xE2, CHR 0x80, CHR 0x8A],
      [CHR 0xE2, CHR 0x80, CHR 0xA8], [CHR 0xE2, CHR 0x80, CHR 0xA9],
      [CHR 0xE2, CHR 0x80, CHR 0xAF],
      [CHR 0xE2, CHR 0x81, CHR 0x9F],
      [CHR 0xE3, CHR 0x80, CHR 0x80]]"

text \<open>The number of bytes of the white space rune a string starts with, and of the
  one it ends with; 0 when the rune there is not white space.\<close>

definition spaceWidth :: "string \<Rightarrow> nat" where
  "spaceWidth s =
     (case find (\<lambda>enc. take (length enc) s = enc) spaceRunes of
        None \<Rightarrow> 0
      | Some enc \<Rightarrow> length enc)"

definition spaceWidthLast :: "string \<Rightarrow> nat" where
  "spaceWidthLast s =
     (case find (\<lambda>enc. length enc \<le> length s \<and> drop (length s - length enc) s = enc)
             spaceRunes of
        None \<Rightarrow> 0
      | Some enc \<Rightarrow> length enc)"

text \<open>\<^verbatim>\<open>strings.TrimSpace\<close>: the white space runes at the start are removed, then
  those at the end of what is left.\<close>

function trimLeft :: "string \<Rightarrow> string" where
  "trimLeft s = (if spaceWidth s = 0 then s else trimLeft (drop (spaceWidth s) s))"
  by pat_completeness auto
termination
proof (relation "measure length")
  show "wf (measure length)" by simp
next
  fix s :: string
  assume w: "spaceWidth s \<noteq> 0"
  have "spaceWidth [] = 0" by (simp add: spaceWidth_def spaceRunes_def)
  then have "s \<noteq> []" using w by auto
  then show "(drop (spaceWidth s) s, s) \<in> measure length" using w by simp
qed

function trimRight :: "string \<Rightarrow> string" where
  "trimRight s =
     (if spaceWidthLast s = 0 then s else trimRight (take (length s - spaceWidthLast s) s))"
  by pat_completeness auto
termination
proof (relation "measure length")
  show "wf (measure length)" by simp
next
  fix s :: string
  assume w: "spaceWidthLast s \<noteq> 0"
  have "spaceWidthLast [] = 0" by (simp add: spaceWidthLast_def spaceRunes_def)
  then have "s \<noteq> []" using w by auto
  then show "(take (length s - spaceWidthLast s) s, s) \<in> measure length" using w by simp
qed

declare trimLeft.simps [simp del] trimRight.simps [simp del]

definition TrimSpace :: "string \<Rightarrow> string" where
  "TrimSpace s = trimRight (trimLeft s)"

text \<open>\<^verbatim>\<open>strings.Fields\<close>: the maximal runs of bytes between white space runes;
  \<open>cur\<close> is the run being read.\<close>

function fieldsFrom :: "string \<Rightarrow> string \<Rightarrow> string list" where
  "fieldsFrom cur s =
     (if s = [] then (if cur = [] then [] else [cur])
      else if spaceWidth s \<noteq> 0
           then (if cur = [] then [] else [cur]) @ fieldsFrom [] (drop (spaceWidth s) s)
           else fieldsFrom (cur @ [hd s]) (tl s))"
  by pat_completeness auto
termination
  by (relation "measure (\<lambda>(cur, s). length s)") auto

declare fieldsFrom.simps [simp del]

definition Fields :: "string \<Rightarrow> string list" where
  "Fields s = fieldsFrom [] s"

text \<open>
  \<^verbatim>\<open>strings.Split\<close> for a separator that is not empty: the pieces between the
  occurrences of \<open>sep\<close>, found from the left and not overlapping; \<open>cur\<close> is the piece
  being read. The program calls it with the NUL byte and with a \<^verbatim>\<open>Delimiter\<close>
  it has tested to be non-empty; with an empty separator (where Go cuts after every
  UTF-8 sequence) the model returns the string whole.
\<close>

function splitFrom :: "string \<Rightarrow> string \<Rightarrow> string \<Rightarrow> string list" where
  "splitFrom sep cur s =
     (if s = [] then [cur]
      else if sep \<noteq> [] \<and> take (length sep) s = sep
           then cur # splitFrom sep [] (drop (length sep) s)
           else splitFrom sep (cur @ [hd s]) (tl s))"
  by pat_completeness auto
termination
  by (relation "measure (\<lambda>(sep, cur, s). length s)") auto

declare splitFrom.simps [simp del]

definition Split :: "string \<Rightarrow> string \<Rightarrow> string list" where
  "Split s sep = splitFrom sep [] s"

fun Join :: "string list \<Rightarrow> string \<Rightarrow> string" where
  "Join [] sep = []"
| "Join [e] sep = e"
| "Join (e # f # rest) sep = e @ sep @ Join (f # rest) sep"

text \<open>
  \<^verbatim>\<open>strings.ReplaceAll\<close> for an \<open>old\<close> that is not empty (the caller tests
  \<^verbatim>\<open>ReplaceStr != ""\<close> first): every occurrence of \<open>old\<close>, found from the left and
  not overlapping, becomes \<open>new\<close>. With an empty \<open>old\<close> (where Go inserts \<open>new\<close>
  around every UTF-8 sequence) the model returns the string unchanged.
\<close>

function ReplaceAll :: "string \<Rightarrow> string \<Rightarrow> string \<Rightarrow> string" where
  "ReplaceAll s old new =
     (if s = [] then []
      else if old \<noteq> [] \<and> take (length old) s = old
           then new @ ReplaceAll (drop (length old) s) old new
           else hd s # ReplaceAll (tl s) old new)"
  by pat_completeness auto
termination
  by (relation "measure (\<lambda>(s, old, new). length s)") auto

declare ReplaceAll.simps [simp del]

section \<open>The environment of a run\<close>

text \<open>
  The errors \<^verbatim>\<open>Execute\<close> returns: \<^verbatim>\<open>ctx.Err()\<close> of a cancelled context, the two
  \<^verbatim>\<open>fmt.Errorf\<close> values of lines 59 and 69, an error of the input reader, the
  \<^verbatim>\<open>bufio.ErrTooLong\<close> of the line scanner, and the error an executed command
  returns.
\<close>

datatype error =
    Cancelled
  | MissingCommand
  | CommandNotFound string
  | ReadFailed string
  | TokenTooLong
  | CommandFailed string

text \<open>
  The cancellation signal. The program looks at the context only through
  \<^verbatim>\<open>yup.CheckContextCancellation\<close>, at fixed places; the context is modelled by what
  each of these checks observes, \<open>True\<close> for a cancelled context. \<open>BeforeRead k\<close> and
  \<open>AfterMiB k\<close> are the checks of lines 303 and 314 around the \<open>k\<close>-th read,
  \<open>BeforeScan k\<close> the check of \<^verbatim>\<open>yup.ScanWithContext\<close> before the \<open>k\<close>-th line,
  \<open>AfterScan\<close> the check of line 128, \<open>BeforeBatch k\<close> the check of line 221 before
  the \<open>k\<close>-th batch, all counted from 0. A context that is cancelled stays so; the
  theorems below hold for every assignment, of which these are some.
\<close>

datatype checkpoint =
    AtEntry
  | BeforeRead nat
  | AfterMiB nat
  | BeforeScan nat
  | AfterScan
  | BeforeBatch nat

type_synonym ctx = "checkpoint \<Rightarrow> bool"

definition CheckContextCancellation :: "ctx \<Rightarrow> checkpoint \<Rightarrow> error option" where
  "CheckContextCancellation cx p = (if cx p then Some Cancelled else None)"

text \<open>
  The input \<^verbatim>\<open>io.Reader\<close>: the byte chunks its successive \<^verbatim>\<open>Read\<close> calls
  deliver, then \<^verbatim>\<open>io.EOF\<close> (\<open>failure = None\<close>) or an error with its message.
\<close>

record reader =
  chunks :: "string list"
  failure :: "string option"

text \<open>
  What the run writes and does: the two sinks, the argument lists handed to the
  command factory, in the order of the calls, and \<open>answers\<close>, what the successive
  calls of \<^verbatim>\<open>fmt.Scanln\<close> (line 188) leave in \<^verbatim>\<open>response\<close>; a call past the
  end of the list reads nothing and leaves the empty string.
\<close>

record world =
  stdout :: string
  stderr :: string
  executed :: "string list list"
  answers :: "string list"

text \<open>
  A command of the registry: what the command built by the factory for an argument
  list writes and returns when it is executed. The first argument is the number of
  commands executed before it in this run, so that a command may behave differently
  from one call to the next.
\<close>

record outcome =
  cmdOut :: string
  cmdErr :: string
  cmdFail :: "string option"

type_synonym CommandFactory = "nat \<Rightarrow> string list \<Rightarrow> outcome"

type_synonym registry = "string \<rightharpoonup> CommandFactory"

record command =
  Positional :: "string list"
  Flags :: Flags

text \<open>\<^verbatim>\<open>Xargs\<close> (lines 36 to 49), from the positional parameters and the options
  that \<^verbatim>\<open>opt.Args\<close> has separated.\<close>

definition Xargs :: "string list \<Rightarrow> Flags \<Rightarrow> command" where
  "Xargs positional fl =
     (let f1 = (if MaxArgs fl = 0 then fl\<lparr>MaxArgs := 256\<rparr> else fl);
          f2 = (if MaxChars f1 = 0 then f1\<lparr>MaxChars := 4096\<rparr> else f1);
          f3 = (if MaxProcs f2 = 0 then f2\<lparr>MaxProcs := 1\<rparr> else f2)
      in \<lparr> Positional = positional, Flags = f3 \<rparr>)"

section \<open>The tokenizer: \<^verbatim>\<open>readArgs\<close> and \<^verbatim>\<open>readAllWithContext\<close>\<close>

text \<open>
  The loop of \<^verbatim>\<open>readAllWithContext\<close> (lines 301 to 326) before the \<open>k\<close>-th read,
  with the bytes read so far and their number.
\<close>

fun readLoop ::
  "ctx \<Rightarrow> string list \<Rightarrow> string option \<Rightarrow> nat \<Rightarrow> string \<Rightarrow> nat \<Rightarrow> string \<times> error option" where
  "readLoop cx [] fail k result totalRead =
     (if cx (BeforeRead k) then (result, Some Cancelled)
      else case fail of
             None \<Rightarrow> (result, None)
           | Some msg \<Rightarrow> (result, Some (ReadFailed msg)))"
| "readLoop cx (chunk # rest) fail k result totalRead =
     (if cx (BeforeRead k) then (result, Some Cancelled)
      else if 0 < length chunk then
        (if (totalRead + length chunk) mod (1024 * 1024) = 0 \<and> cx (AfterMiB k)
         then (result @ chunk, Some Cancelled)
         else readLoop cx rest fail (k + 1) (result @ chunk) (totalRead + length chunk))
      else readLoop cx rest fail (k + 1) result totalRead)"

definition readAllWithContext :: "ctx \<Rightarrow> reader \<Rightarrow> string \<times> error option" where
  "readAllWithContext cx input = readLoop cx (chunks input) (failure input) 0 [] 0"

text \<open>
  The \<^verbatim>\<open>bufio.Scanner\<close> of line 118, with its default split function
  \<^verbatim>\<open>ScanLines\<close> and its default buffer: the lines of the input without their line
  ends, a last line without a line end included when it is not empty, up to the
  first line that does not fit the buffer of 64 KiB. \<^verbatim>\<open>scanner.Err()\<close> is then
  \<^verbatim>\<open>ErrTooLong\<close>, and else the error of the reader.
\<close>

fun linesFrom :: "string \<Rightarrow> string \<Rightarrow> string list" where
  "linesFrom cur [] = (if cur = [] then [] else [cur])"
| "linesFrom cur (ch # rest) =
     (if ch = CHR 0x0A then cur # linesFrom [] rest else linesFrom (cur @ [ch]) rest)"

definition dropCR :: "string \<Rightarrow> string" where
  "dropCR s = (if s \<noteq> [] \<and> last s = CHR 0x0D then butlast s else s)"

definition maxScanTokenSize :: nat where
  "maxScanTokenSize = 64 * 1024"

definition scanAll :: "reader \<Rightarrow> string list \<times> error option" where
  "scanAll input =
     (let raw = linesFrom [] (concat (chunks input));
          scanned = takeWhile (\<lambda>l. length l < maxScanTokenSize) raw
      in (map dropCR scanned,
          if length scanned < length raw then Some TokenTooLong
          else map_option ReadFailed (failure input)))"

text \<open>
  The loop of lines 119 to 125 over the lines the scanner delivers.
  \<^verbatim>\<open>yup.ScanWithContext\<close> belongs to the framework; it is taken to check the
  context and then to call \<^verbatim>\<open>scanner.Scan\<close>.
\<close>

fun scanLoop :: "ctx \<Rightarrow> string list \<Rightarrow> nat \<Rightarrow> string list \<Rightarrow> string list" where
  "scanLoop cx [] k args = args"
| "scanLoop cx (text # rest) k args =
     (if cx (BeforeScan k) then args
      else let line = TrimSpace text
           in scanLoop cx rest (k + 1) (if line \<noteq> [] then args @ Fields line else args))"

text \<open>\<^verbatim>\<open>readArgs\<close> (lines 89 to 138): the tokens and the error.\<close>

definition readArgs :: "Flags \<Rightarrow> ctx \<Rightarrow> reader \<Rightarrow> string list \<times> error option" where
  "readArgs c cx input =
     (if NullDelim c then
        (case readAllWithContext cx input of
           (data, Some e) \<Rightarrow> ([], Some e)
         | (data, None) \<Rightarrow>
             (filter (\<lambda>part. part \<noteq> []) (Split data [CHR 0x00]), None))
      else if Delimiter c \<noteq> [] then
        (case readAllWithContext cx input of
           (data, Some e) \<Rightarrow> ([], Some e)
         | (data, None) \<Rightarrow>
             (map TrimSpace (filter (\<lambda>part. part \<noteq> []) (Split data (Delimiter c))), None))
      else
        (case scanAll input of
           (lines, scanErr) \<Rightarrow>
             let args = scanLoop cx lines 0 []
             in if cx AfterScan then (args, Some Cancelled)
                else case scanErr of
                       Some e \<Rightarrow> ([], Some e)
                     | None \<Rightarrow> (args, None)))"

section \<open>The dispatcher: \<^verbatim>\<open>executeCommand\<close>, \<^verbatim>\<open>executeParallel\<close>, \<^verbatim>\<open>Execute\<close>\<close>

text \<open>The verb \<^verbatim>\<open>%v\<close> of a string slice: the elements between brackets.\<close>

definition fmtArgs :: "string list \<Rightarrow> string" where
  "fmtArgs args = ''['' @ Join args '' '' @ '']''"

definition runFactory :: "CommandFactory \<Rightarrow> string list \<Rightarrow> world \<Rightarrow> error option \<times> world" where
  "runFactory factory args w =
     (let r = factory (length (executed w)) args
      in (map_option CommandFailed (cmdFail r),
          w\<lparr> stdout := stdout w @ cmdOut r,
             stderr := stderr w @ cmdErr r,
             executed := executed w @ [args] \<rparr>))"

definition executeCommand ::
  "Flags \<Rightarrow> CommandFactory \<Rightarrow> string list \<Rightarrow> world \<Rightarrow> error option \<times> world" where
  "executeCommand c factory args w =
     (let w1 = (if Print c
                then w\<lparr> stderr := stderr w @ ''xargs: executing with args: '' @ fmtArgs args
                                       @ [CHR 0x0A] \<rparr>
                else w)
      in if Interactive c then
           let w2 = w1\<lparr> stderr := stderr w1 @ ''Execute command with args '' @ fmtArgs args
                                      @ ''? [y/N] '' \<rparr>;
               response = (case answers w2 of [] \<Rightarrow> [] | r # _ \<Rightarrow> r);
               w3 = w2\<lparr> answers := drop 1 (answers w2) \<rparr>
           in if response \<noteq> ''y'' \<and> response \<noteq> ''Y'' then (None, w3)
              else runFactory factory args w3
         else runFactory factory args w1)"

text \<open>The sequential loop of lines 220 to 228, before the \<open>k\<close>-th batch.\<close>

fun runSequential ::
  "Flags \<Rightarrow> ctx \<Rightarrow> CommandFactory \<Rightarrow> string list list \<Rightarrow> nat \<Rightarrow> world \<Rightarrow> error option \<times> world" where
  "runSequential c cx factory [] k w = (None, w)"
| "runSequential c cx factory (cmdArgs # rest) k w =
     (if cx (BeforeBatch k) then (Some Cancelled, w)
      else case executeCommand c factory cmdArgs w of
             (Some e, w') \<Rightarrow> (Some e, w')
           | (None, w') \<Rightarrow> runSequential c cx factory rest (k + 1) w')"

text \<open>
  The worker pool of lines 231 to 292 runs goroutines and is not modelled: what it
  returns and leaves in the sinks is the parameter \<open>pool\<close>, a function of the values
  that part of the source reads, which are \<^verbatim>\<open>maxProcs\<close>, the two options
  \<^verbatim>\<open>executeCommand\<close> reads, the context, the factory and the batches.
\<close>

type_synonym pool =
  "int \<Rightarrow> bool \<Rightarrow> bool \<Rightarrow> ctx \<Rightarrow> CommandFactory \<Rightarrow> string list list \<Rightarrow> world
     \<Rightarrow> error option \<times> world"

definition executeParallel ::
  "pool \<Rightarrow> Flags \<Rightarrow> ctx \<Rightarrow> CommandFactory \<Rightarrow> string list list \<Rightarrow> world
     \<Rightarrow> error option \<times> world" where
  "executeParallel workers c cx factory cmdLines w =
     (if length cmdLines = 0 then (None, w)
      else
        let maxProcs = (if MaxProcs c \<le> 0 then 1 else MaxProcs c)
        in if maxProcs = 1 \<or> length cmdLines = 1
           then runSequential c cx factory cmdLines 0 w
           else workers maxProcs (Print c) (Interactive c) cx factory cmdLines w)"

text \<open>\<^verbatim>\<open>Execute\<close> (lines 51 to 87); \<open>reg\<close> is the global \<^verbatim>\<open>CommandRegistry\<close>.\<close>

definition Execute ::
  "pool \<Rightarrow> registry \<Rightarrow> command \<Rightarrow> ctx \<Rightarrow> reader \<Rightarrow> world \<Rightarrow> error option \<times> world" where
  "Execute workers reg cmd cx input w =
     (if cx AtEntry then (Some Cancelled, w)
      else case Positional cmd of
        [] \<Rightarrow> (Some MissingCommand,
                w\<lparr> stderr := stderr w @ ''xargs: missing command'' @ [CHR 0x0A] \<rparr>)
      | cmdName # baseArgs \<Rightarrow>
          (case reg cmdName of
             None \<Rightarrow>
               (Some (CommandNotFound cmdName),
                w\<lparr> stderr := stderr w @ ''xargs: command '' @ [CHR 0x27] @ cmdName @ [CHR 0x27]
                                   @ '' not found in registry'' @ [CHR 0x0A] \<rparr>)
           | Some factory \<Rightarrow>
               (case readArgs (Flags cmd) cx input of
                  (args, Some e) \<Rightarrow> (Some e, w)
                | (args, None) \<Rightarrow>
                    if length args = 0 \<and> NoRunEmpty (Flags cmd) then (None, w)
                    else executeParallel workers (Flags cmd) cx factory
                           (groupArgs (Flags cmd) args baseArgs) w)))"

section \<open>The line executor of src/command.go\<close>

text \<open>
  The argument list that \<^verbatim>\<open>Executor\<close> builds for one input line (lines 48 to 67),
  from the options, the fixed arguments \<^verbatim>\<open>p.args\<close> and the line.
\<close>

definition lineInputArgs :: "Flags \<Rightarrow> string \<Rightarrow> string list" where
  "lineInputArgs fl line =
     (if Delimiter fl \<noteq> [] then Split line (Delimiter fl)
      else if NullDelim fl then Split line [CHR 0x00]
      else Fields line)"

definition lineCmdArgs :: "Flags \<Rightarrow> string list \<Rightarrow> string \<Rightarrow> string list" where
  "lineCmdArgs fl args line =
     (let inputArgs = lineInputArgs fl line
      in if ReplaceStr fl \<noteq> []
         then map (\<lambda>arg. ReplaceAll arg (ReplaceStr fl) (Join inputArgs '' '')) args
         else args @ inputArgs)"

section \<open>Properties of the batcher\<close>

lemma inputSlice_append [simp]: "inputSlice baseArgs (baseArgs @ added) = added"
  by (simp add: inputSlice_def)

lemma inputSlice_base [simp]: "inputSlice baseArgs baseArgs = []"
  by (simp add: inputSlice_def)

lemma groupFrom_Nil [simp]: "groupFrom c [] baseArgs = []"
  by (simp add: groupFrom.simps)

lemma groupFrom_stop:
  "inputArgs \<noteq> [] \<Longrightarrow> fillBatch c inputArgs 0 0 = [] \<Longrightarrow>
   groupFrom c inputArgs baseArgs = (if NoRunEmpty c then [] else [baseArgs])"
  by (subst groupFrom.simps) simp

lemma groupFrom_step:
  "fillBatch c inputArgs 0 0 = added \<Longrightarrow> added \<noteq> [] \<Longrightarrow>
   groupFrom c inputArgs baseArgs =
     (baseArgs @ added) # groupFrom c (drop (length added) inputArgs) baseArgs"
  by (subst groupFrom.simps) (auto simp: Let_def)

lemma groupFrom_go:
  "fillBatch c inputArgs 0 0 \<noteq> [] \<Longrightarrow>
   groupFrom c inputArgs baseArgs =
     (baseArgs @ fillBatch c inputArgs 0 0) #
       groupFrom c (drop (length (fillBatch c inputArgs 0 0)) inputArgs) baseArgs"
  by (rule groupFrom_step[OF refl])

lemma fillBatch_prefix:
  "fillBatch c xs a u = take (length (fillBatch c xs a u)) xs"
  by (induction xs arbitrary: a u) auto

lemma fillBatch_fits:
  "0 \<le> u \<Longrightarrow> t \<in> set (fillBatch c xs a u) \<Longrightarrow> fits c t"
proof (induction xs arbitrary: a u)
  case Nil
  then show ?case by simp
next
  case (Cons x xs)
  then show ?case
    by (fastforce simp: fits_def split: if_splits)
qed

lemma fillBatch_fresh_empty:
  "fillBatch c (x # xs) 0 0 = [] \<longleftrightarrow> \<not> fits c x"
  by (auto simp: fits_def)

lemma fillBatch_count:
  "0 < MaxArgs c \<Longrightarrow> a \<le> MaxArgs c \<Longrightarrow> a + int (length (fillBatch c xs a u)) \<le> MaxArgs c"
proof (induction xs arbitrary: a u)
  case Nil
  then show ?case by simp
next
  case (Cons x xs)
  show ?case
  proof (cases "fillBatch c (x # xs) a u = []")
    case True
    then show ?thesis using Cons.prems by simp
  next
    case False
    then have eq: "fillBatch c (x # xs) a u = x # fillBatch c xs (a + 1) (u + int (length x) + 1)"
      and le: "a + 1 \<le> MaxArgs c"
      using Cons.prems by (auto split: if_splits)
    have "a + 1 + int (length (fillBatch c xs (a + 1) (u + int (length x) + 1))) \<le> MaxArgs c"
      using Cons.IH[OF Cons.prems(1) le] .
    then show ?thesis unfolding eq by simp
  qed
qed

lemma fillBatch_chars:
  "0 < MaxChars c \<Longrightarrow> u \<le> MaxChars c \<Longrightarrow> u + charCount (fillBatch c xs a u) \<le> MaxChars c"
proof (induction xs arbitrary: a u)
  case Nil
  then show ?case by (simp add: charCount_def)
next
  case (Cons x xs)
  show ?case
  proof (cases "fillBatch c (x # xs) a u = []")
    case True
    then show ?thesis using Cons.prems by (simp add: charCount_def)
  next
    case False
    then have eq: "fillBatch c (x # xs) a u = x # fillBatch c xs (a + 1) (u + int (length x) + 1)"
      and le: "u + int (length x) + 1 \<le> MaxChars c"
      using Cons.prems by (auto split: if_splits)
    have "u + int (length x) + 1 + charCount (fillBatch c xs (a + 1) (u + int (length x) + 1)) \<le> MaxChars c"
      using Cons.IH[OF Cons.prems(1) le] .
    then show ?thesis unfolding eq by (simp add: charCount_def)
  qed
qed

lemma groupFrom_batch:
  "b \<in> set (groupFrom c inputArgs baseArgs) \<Longrightarrow> \<exists>rest. b = baseArgs @ fillBatch c rest 0 0"
proof (induction c inputArgs baseArgs rule: groupFrom.induct)
  case (1 c inputArgs baseArgs)
  show ?case
  proof (cases "inputArgs = []")
    case True
    then show ?thesis using "1.prems" by simp
  next
    case ne: False
    show ?thesis
    proof (cases "fillBatch c inputArgs 0 0 = []")
      case True
      then have "b = baseArgs @ fillBatch c inputArgs 0 0"
        using "1.prems" ne by (simp add: groupFrom_stop split: if_splits)
      then show ?thesis by blast
    next
      case False
      then have "b = baseArgs @ fillBatch c inputArgs 0 0 \<or>
          b \<in> set (groupFrom c (drop (length (fillBatch c inputArgs 0 0)) inputArgs) baseArgs)"
        using "1.prems" groupFrom_step[OF refl False, of baseArgs] by auto
      then show ?thesis
        using "1.IH"[OF ne refl refl refl] False by auto
    qed
  qed
qed

lemma groupFrom_concat:
  "concat (map (inputSlice baseArgs) (groupFrom c inputArgs baseArgs)) = takeWhile (fits c) inputArgs"
proof (induction c inputArgs baseArgs rule: groupFrom.induct)
  case (1 c inputArgs baseArgs)
  show ?case
  proof (cases inputArgs)
    case Nil
    then show ?thesis by simp
  next
    case (Cons x xs)
    define added where "added = fillBatch c inputArgs 0 0"
    show ?thesis
    proof (cases "added = []")
      case True
      then have "\<not> fits c x" using fillBatch_fresh_empty[of c x xs] Cons added_def by simp
      then show ?thesis
        using True Cons added_def groupFrom_stop[of inputArgs c baseArgs] by simp
    next
      case False
      have pre: "added = take (length added) inputArgs"
        unfolding added_def by (rule fillBatch_prefix)
      have allfit: "\<forall>t\<in>set added. fits c t"
        unfolding added_def using fillBatch_fits[of 0 _ c inputArgs 0] by simp
      have IH: "concat (map (inputSlice baseArgs) (groupFrom c (drop (length added) inputArgs) baseArgs))
          = takeWhile (fits c) (drop (length added) inputArgs)"
        using 1[OF _ refl refl refl] False Cons added_def by simp
      have "takeWhile (fits c) inputArgs = takeWhile (fits c) (added @ drop (length added) inputArgs)"
        using pre by (metis append_take_drop_id)
      also have "\<dots> = added @ takeWhile (fits c) (drop (length added) inputArgs)"
        using allfit by simp
      finally have tw: "takeWhile (fits c) inputArgs = added @ takeWhile (fits c) (drop (length added) inputArgs)" .
      have "groupFrom c inputArgs baseArgs = (baseArgs @ added) # groupFrom c (drop (length added) inputArgs) baseArgs"
        using False added_def by (simp add: groupFrom_step)
      then show ?thesis using IH tw by simp
    qed
  qed
qed

lemma groupFuel_enough:
  "length inputArgs \<le> fuel \<Longrightarrow> groupFuel fuel c inputArgs baseArgs = Some (groupFrom c inputArgs baseArgs)"
proof (induction fuel arbitrary: inputArgs)
  case 0
  then show ?case by simp
next
  case (Suc n)
  show ?case
  proof (cases "inputArgs = []")
    case True
    then show ?thesis by simp
  next
    case ne: False
    show ?thesis
    proof (cases "fillBatch c inputArgs 0 0 = []")
      case True
      then show ?thesis using ne by (simp add: groupFrom_stop)
    next
      case False
      have "length (drop (length (fillBatch c inputArgs 0 0)) inputArgs) \<le> n"
        using False Suc.prems by (cases "fillBatch c inputArgs 0 0") simp_all
      then have "groupFuel n c (drop (length (fillBatch c inputArgs 0 0)) inputArgs) baseArgs
          = Some (groupFrom c (drop (length (fillBatch c inputArgs 0 0)) inputArgs) baseArgs)"
        by (rule Suc.IH)
      then show ?thesis
        using ne False groupFrom_step[OF refl False, of baseArgs] by (simp add: Let_def)
    qed
  qed
qed

lemma fillBatch_length: "length (fillBatch c xs a u) \<le> length xs"
  by (induction xs arbitrary: a u) auto

lemma groupFrom_length: "length (groupFrom c inputArgs baseArgs) \<le> length inputArgs"
proof (induction c inputArgs baseArgs rule: groupFrom.induct)
  case (1 c inputArgs baseArgs)
  show ?case
  proof (cases "inputArgs = []")
    case True
    then show ?thesis by simp
  next
    case ne: False
    then have pos: "0 < length inputArgs" by simp
    show ?thesis
    proof (cases "fillBatch c inputArgs 0 0 = []")
      case True
      have "length (groupFrom c inputArgs baseArgs) \<le> 1"
        by (simp add: groupFrom_stop[OF ne True])
      then show ?thesis using pos by linarith
    next
      case False
      define k where "k = length (fillBatch c inputArgs 0 0)"
      have k: "0 < k" "k \<le> length inputArgs"
        using False fillBatch_length[of c inputArgs 0 0] by (simp_all add: k_def)
      have "length (groupFrom c (drop k inputArgs) baseArgs) \<le> length (drop k inputArgs)"
        unfolding k_def using "1.IH"[OF ne refl refl refl] False by simp
      then have "length (groupFrom c (drop k inputArgs) baseArgs) \<le> length inputArgs - k"
        by simp
      moreover have "length (groupFrom c inputArgs baseArgs)
          = Suc (length (groupFrom c (drop k inputArgs) baseArgs))"
        unfolding k_def by (simp add: groupFrom_go[OF False])
      ultimately show ?thesis using k by linarith
    qed
  qed
qed

lemma groupFrom_butlast:
  "b \<in> set (butlast (groupFrom c inputArgs baseArgs)) \<Longrightarrow> inputSlice baseArgs b \<noteq> []"
proof (induction c inputArgs baseArgs rule: groupFrom.induct)
  case (1 c inputArgs baseArgs)
  show ?case
  proof (cases "inputArgs = []")
    case True
    then show ?thesis using "1.prems" by simp
  next
    case ne: False
    show ?thesis
    proof (cases "fillBatch c inputArgs 0 0 = []")
      case True
      then show ?thesis using "1.prems" ne by (simp add: groupFrom_stop split: if_splits)
    next
      case False
      have "b = baseArgs @ fillBatch c inputArgs 0 0 \<or>
          b \<in> set (butlast (groupFrom c (drop (length (fillBatch c inputArgs 0 0)) inputArgs) baseArgs))"
        using "1.prems" groupFrom_step[OF refl False, of baseArgs] by (auto split: if_splits)
      then show ?thesis
        using "1.IH"[OF ne refl refl refl] False by auto
    qed
  qed
qed

lemma fillBatch_cong:
  "MaxArgs c' = MaxArgs c \<Longrightarrow> MaxChars c' = MaxChars c \<Longrightarrow>
   fillBatch c' xs a u = fillBatch c xs a u"
  by (induction xs arbitrary: a u) auto

lemma groupFrom_cong:
  assumes "MaxArgs c' = MaxArgs c" "MaxChars c' = MaxChars c" "NoRunEmpty c' = NoRunEmpty c"
  shows "groupFrom c' inputArgs baseArgs = groupFrom c inputArgs baseArgs"
  using assms
proof (induction c inputArgs baseArgs rule: groupFrom.induct)
  case (1 c inputArgs baseArgs)
  have fb: "\<And>xs. fillBatch c' xs 0 0 = fillBatch c xs 0 0"
    using "1.prems"(1,2) by (rule fillBatch_cong)
  show ?case
  proof (cases "inputArgs = []")
    case True
    then show ?thesis by simp
  next
    case ne: False
    show ?thesis
    proof (cases "fillBatch c inputArgs 0 0 = []")
      case True
      then show ?thesis using ne fb "1.prems"(3) by (simp add: groupFrom_stop)
    next
      case False
      have "groupFrom c' (drop (length (fillBatch c inputArgs 0 0)) inputArgs) baseArgs
          = groupFrom c (drop (length (fillBatch c inputArgs 0 0)) inputArgs) baseArgs"
        using "1.IH"[OF ne refl refl refl _ "1.prems"] False by simp
      then show ?thesis
        using groupFrom_step[OF refl False, of baseArgs] False
          groupFrom_step[of c' inputArgs "fillBatch c inputArgs 0 0" baseArgs] fb
        by simp
    qed
  qed
qed



lemma fillBatch_oversized:
  "0 < MaxChars c \<Longrightarrow> MaxChars c < int (length t) + 1 \<Longrightarrow> 0 \<le> u \<Longrightarrow>
   fillBatch c (xs @ t # post) a u = fillBatch c xs a u"
  by (induction xs arbitrary: a u) auto

lemma groupFrom_oversized:
  assumes "0 < MaxChars c" "MaxChars c < int (length t) + 1"
  shows "\<forall>u\<in>set pre. fits c u \<Longrightarrow>
    groupFrom c (pre @ t # post) baseArgs =
      groupFrom c pre baseArgs @ (if NoRunEmpty c then [] else [baseArgs])"
proof (induction pre rule: length_induct)
  case (1 pre)
  have fb: "fillBatch c (pre @ t # post) 0 0 = fillBatch c pre 0 0"
    using assms by (simp add: fillBatch_oversized)
  show ?case
  proof (cases pre)
    case Nil
    then show ?thesis using fb by (simp add: groupFrom_stop)
  next
    case (Cons x xs)
    then have "fits c x" using "1.prems" by simp
    then have ne: "fillBatch c pre 0 0 \<noteq> []"
      using Cons fillBatch_fresh_empty[of c x xs] by simp
    define k where "k = length (fillBatch c pre 0 0)"
    have k: "0 < k" "k \<le> length pre"
      using ne fillBatch_length[of c pre 0 0] by (simp_all add: k_def)
    have shorter: "length (drop k pre) < length pre" using k Cons by simp
    have allfit: "\<forall>u\<in>set (drop k pre). fits c u"
      using "1.prems" by (meson in_set_dropD)
    have IH: "groupFrom c (drop k pre @ t # post) baseArgs =
        groupFrom c (drop k pre) baseArgs @ (if NoRunEmpty c then [] else [baseArgs])"
      using "1.IH" shorter allfit by blast
    have "groupFrom c (pre @ t # post) baseArgs =
        (baseArgs @ fillBatch c pre 0 0) # groupFrom c (drop k pre @ t # post) baseArgs"
      using groupFrom_go[of c "pre @ t # post" baseArgs] fb ne k by (simp add: k_def)
    moreover have "groupFrom c pre baseArgs =
        (baseArgs @ fillBatch c pre 0 0) # groupFrom c (drop k pre) baseArgs"
      using groupFrom_go[OF ne, of baseArgs] by (simp add: k_def)
    ultimately show ?thesis using IH by simp
  qed
qed


subsection \<open>C1: what the batches hold\<close>

text \<open>
  C1 as stated fails. With a character limit of 3 the token \<open>abc\<close> costs 4 and starts no batch: the
  grouping ends at it, and the batches hold \<open>a\<close> alone of the three tokens.
\<close>

theorem groupArgs_loses_tokens:
  "concat (map (inputSlice [''-n''])
     (groupArgs (defaultFlags\<lparr>MaxChars := 3\<rparr>) [''a'', ''abc'', ''b''] [''-n'']))
   \<noteq> [''a'', ''abc'', ''b'']"
  by (simp add: groupArgs_def defaultFlags_def groupFrom_go groupFrom_stop inputSlice_def)

text \<open>
  C1, as amended. The input slices of the batches of \<^verbatim>\<open>groupArgs\<close>, concatenated
  in batch order, are the longest prefix of the token sequence whose tokens each fit
  the character limit on their own, in their order and once each; they are the whole
  token sequence when every token fits.
\<close>

theorem groupArgs_reconstructs_fitting_prefix:
  "concat (map (inputSlice baseArgs) (groupArgs c T baseArgs)) = takeWhile (fits c) T \<and>
   ((\<forall>t\<in>set T. fits c t) \<longrightarrow>
      concat (map (inputSlice baseArgs) (groupArgs c T baseArgs)) = T)"
proof -
  have "concat (map (inputSlice baseArgs) (groupArgs c T baseArgs)) = takeWhile (fits c) T"
    unfolding groupArgs_def by (rule groupFrom_concat)
  then show ?thesis by (simp add: takeWhile_eq_all_conv)
qed

theorem groupArgs_reconstructs_fitting_prefix_witness:
  "concat (map (inputSlice [''-n''])
     (groupArgs (defaultFlags\<lparr>MaxArgs := 2\<rparr>) [''a'', ''b'', ''c''] [''-n'']))
   = [''a'', ''b'', ''c'']"
  using groupArgs_reconstructs_fitting_prefix
    [of "[''-n'']" "defaultFlags\<lparr>MaxArgs := 2\<rparr>" "[''a'', ''b'', ''c'']"]
  by (simp add: fits_def defaultFlags_def)

subsection \<open>C2: a token longer than the character limit\<close>

text \<open>
  C2 as stated fails. The token \<open>abcd\<close> is longer than the limit of 3: no batch is emitted, neither
  for it nor for the token \<open>x\<close> behind it.
\<close>

theorem groupArgs_oversized_token_dropped:
  "groupArgs (defaultFlags\<lparr>MaxChars := 3, NoRunEmpty := True\<rparr>) [''abcd'', ''x''] [''-n''] = []"
  by (simp add: groupArgs_def defaultFlags_def groupFrom_stop)

text \<open>
  C2, as amended. At the first token whose length plus one exceeds a positive
  \<^verbatim>\<open>MaxChars\<close> the grouping stops: the batches are those of the tokens before it,
  followed by one batch of the base arguments alone unless \<^verbatim>\<open>NoRunEmpty\<close> is set,
  and the tokens in the batches are exactly the tokens before it. The token and all
  tokens behind it are in no batch.
\<close>

theorem groupArgs_stops_at_oversized_token:
  assumes "0 < MaxChars c" and "MaxChars c < int (length t) + 1"
    and "\<forall>u\<in>set pre. fits c u"
  shows "groupArgs c (pre @ t # post) baseArgs =
           groupArgs c pre baseArgs @ (if NoRunEmpty c then [] else [baseArgs]) \<and>
         concat (map (inputSlice baseArgs) (groupArgs c (pre @ t # post) baseArgs)) = pre"
proof -
  have "\<not> fits c t" using assms(1,2) by (simp add: fits_def)
  then have "takeWhile (fits c) (pre @ t # post) = pre"
    using assms(3) by (simp add: takeWhile_tail)
  then show ?thesis
    unfolding groupArgs_def
    using groupFrom_oversized[OF assms] groupFrom_concat[of baseArgs c "pre @ t # post"]
    by simp
qed

theorem groupArgs_stops_at_oversized_token_witness:
  "groupArgs (defaultFlags\<lparr>MaxChars := 3\<rparr>) ([''a''] @ ''abc'' # [''b'']) [''-n'']
     = groupArgs (defaultFlags\<lparr>MaxChars := 3\<rparr>) [''a''] [''-n''] @ [[''-n'']] \<and>
   concat (map (inputSlice [''-n''])
     (groupArgs (defaultFlags\<lparr>MaxChars := 3\<rparr>) ([''a''] @ ''abc'' # [''b'']) [''-n''])) = [''a'']"
  using groupArgs_stops_at_oversized_token
    [of "defaultFlags\<lparr>MaxChars := 3\<rparr>" "''abc''" "[''a'']" "[''b'']" "[''-n'']"]
  by (simp add: fits_def defaultFlags_def groupArgs_def groupFrom_go groupFrom_stop
      inputSlice_def)

subsection \<open>C4: the limits of a batch\<close>

text \<open>
  C4. With both limits positive, every batch of \<^verbatim>\<open>groupArgs\<close> holds at most
  \<^verbatim>\<open>MaxArgs\<close> input tokens, and the lengths of its tokens plus one each sum to at
  most \<^verbatim>\<open>MaxChars\<close>. No batch is excepted: a token that exceeds the character
  limit alone is in no batch.
\<close>

theorem groupArgs_batch_within_limits:
  assumes "0 < MaxArgs c" and "0 < MaxChars c"
    and "b \<in> set (groupArgs c T baseArgs)"
  shows "int (length (inputSlice baseArgs b)) \<le> MaxArgs c \<and>
         charCount (inputSlice baseArgs b) \<le> MaxChars c"
proof -
  obtain rest where b: "b = baseArgs @ fillBatch c rest 0 0"
    using assms(3) groupFrom_batch unfolding groupArgs_def by blast
  have "0 + int (length (fillBatch c rest 0 0)) \<le> MaxArgs c"
    using assms(1) by (intro fillBatch_count) simp_all
  moreover have "0 + charCount (fillBatch c rest 0 0) \<le> MaxChars c"
    using assms(2) by (intro fillBatch_chars) simp_all
  ultimately show ?thesis using b by simp
qed

theorem groupArgs_batch_within_limits_witness:
  "int (length (inputSlice [''-n''] [''-n'', ''a'', ''b''])) \<le> 2 \<and>
   charCount (inputSlice [''-n''] [''-n'', ''a'', ''b'']) \<le> 4096"
proof -
  have g: "groupArgs (defaultFlags\<lparr>MaxArgs := 2\<rparr>) [''a'', ''b'', ''c''] [''-n'']
      = [[''-n'', ''a'', ''b''], [''-n'', ''c'']]"
    by (simp add: groupArgs_def defaultFlags_def groupFrom_go groupFrom_stop)
  have m: "[''-n'', ''a'', ''b'']
      \<in> set (groupArgs (defaultFlags\<lparr>MaxArgs := 2\<rparr>) [''a'', ''b'', ''c''] [''-n''])"
    by (simp add: g)
  have a: "0 < MaxArgs (defaultFlags\<lparr>MaxArgs := 2\<rparr>)"
    and c: "0 < MaxChars (defaultFlags\<lparr>MaxArgs := 2\<rparr>)"
    by (simp_all add: defaultFlags_def)
  show ?thesis
    using groupArgs_batch_within_limits[OF a c m] by (simp add: defaultFlags_def)
qed

subsection \<open>C9: termination\<close>

text \<open>
  C9 as stated fails. With a character limit of 1 the token \<open>a\<close> cannot start a batch. The grouping
  emits the base arguments alone, a batch without a token while a token remains.
\<close>

theorem groupArgs_emits_batch_without_token:
  "groupArgs (defaultFlags\<lparr>MaxChars := 1\<rparr>) [''a''] [''-n''] = [[''-n'']]"
  by (simp add: groupArgs_def defaultFlags_def groupFrom_stop)

text \<open>
  C9, as amended. For every token sequence and every configuration \<^verbatim>\<open>groupArgs\<close>
  ends after at most one iteration per token, and emits at most one batch per token.
  When no token can be added to a fresh batch it stops instead of forcing one in:
  every batch but the last holds at least one token, the last may hold none.
\<close>

theorem groupArgs_terminates:
  "groupFuel (length T) c T baseArgs = Some (groupArgs c T baseArgs) \<and>
   length (groupArgs c T baseArgs) \<le> length T \<and>
   (\<forall>b\<in>set (butlast (groupArgs c T baseArgs)). inputSlice baseArgs b \<noteq> [])"
  unfolding groupArgs_def
  using groupFuel_enough[of T "length T" c baseArgs] groupFrom_length[of c T baseArgs]
    groupFrom_butlast[of _ c T baseArgs]
  by blast

theorem groupArgs_terminates_witness:
  "groupFuel 3 (defaultFlags\<lparr>MaxChars := 3\<rparr>) [''a'', ''abc'', ''b''] [''-n'']
     = Some [[''-n'', ''a''], [''-n'']]"
proof -
  have g: "groupArgs (defaultFlags\<lparr>MaxChars := 3\<rparr>) [''a'', ''abc'', ''b''] [''-n'']
      = [[''-n'', ''a''], [''-n'']]"
    by (simp add: groupArgs_def defaultFlags_def groupFrom_go groupFrom_stop)
  show ?thesis
    using groupArgs_terminates
      [of "[''a'', ''abc'', ''b'']" "defaultFlags\<lparr>MaxChars := 3\<rparr>" "[''-n'']"]
    unfolding g by (simp add: defaultFlags_def numeral_3_eq_3)
qed

section \<open>Properties of the tokenizer, the dispatcher and the run\<close>

lemma splitFrom_Nil [simp]: "splitFrom sep cur [] = [cur]"
  by (simp add: splitFrom.simps)

lemma splitFrom_match:
  "sep \<noteq> [] \<Longrightarrow> take (length sep) (x # xs) = sep \<Longrightarrow>
   splitFrom sep cur (x # xs) = cur # splitFrom sep [] (drop (length sep) (x # xs))"
  by (subst splitFrom.simps) simp

lemma splitFrom_skip:
  "\<not> (sep \<noteq> [] \<and> take (length sep) (x # xs) = sep) \<Longrightarrow>
   splitFrom sep cur (x # xs) = splitFrom sep (cur @ [x]) xs"
  by (subst splitFrom.simps) auto

lemma ReplaceAll_Nil [simp]: "ReplaceAll [] old new = []"
  by (simp add: ReplaceAll.simps)

lemma ReplaceAll_match:
  "old \<noteq> [] \<Longrightarrow> take (length old) s = old \<Longrightarrow>
   ReplaceAll s old new = new @ ReplaceAll (drop (length old) s) old new"
  by (subst ReplaceAll.simps) auto

lemma ReplaceAll_skip:
  "\<not> (old \<noteq> [] \<and> take (length old) (x # xs) = old) \<Longrightarrow>
   ReplaceAll (x # xs) old new = x # ReplaceAll xs old new"
  by (subst ReplaceAll.simps) auto

lemma ReplaceAll_self: "old \<noteq> [] \<Longrightarrow> ReplaceAll old old new = new"
  by (simp add: ReplaceAll_match)

lemma trimLeft_stop: "spaceWidth s = 0 \<Longrightarrow> trimLeft s = s"
  by (subst trimLeft.simps) simp

lemma trimLeft_go: "spaceWidth s \<noteq> 0 \<Longrightarrow> trimLeft s = trimLeft (drop (spaceWidth s) s)"
  by (subst trimLeft.simps) simp

lemma trimRight_stop: "spaceWidthLast s = 0 \<Longrightarrow> trimRight s = s"
  by (subst trimRight.simps) simp

lemma trimRight_go:
  "spaceWidthLast s \<noteq> 0 \<Longrightarrow> trimRight s = trimRight (take (length s - spaceWidthLast s) s)"
  by (subst trimRight.simps) simp

lemma fieldsFrom_Nil [simp]: "fieldsFrom cur [] = (if cur = [] then [] else [cur])"
  by (subst fieldsFrom.simps) simp

lemma fieldsFrom_space:
  "spaceWidth (x # xs) \<noteq> 0 \<Longrightarrow>
   fieldsFrom cur (x # xs)
     = (if cur = [] then [] else [cur]) @ fieldsFrom [] (drop (spaceWidth (x # xs)) (x # xs))"
  by (subst fieldsFrom.simps) simp

lemma fieldsFrom_byte:
  "spaceWidth (x # xs) = 0 \<Longrightarrow> fieldsFrom cur (x # xs) = fieldsFrom (cur @ [x]) xs"
  by (subst fieldsFrom.simps) simp

lemmas strings_eval =
  spaceWidth_def spaceWidthLast_def spaceRunes_def TrimSpace_def Fields_def
  trimLeft_stop trimLeft_go trimRight_stop trimRight_go fieldsFrom_space fieldsFrom_byte

lemma TrimSpace_example:
  "TrimSpace ([CHR 0xC2, CHR 0xA0] @ '' a b '' @ [CHR 0xE2, CHR 0x80, CHR 0x83, CHR 0x0A]) = ''a b''"
  by (simp add: strings_eval)

lemma Fields_example:
  "Fields (''ab'' @ [CHR 0xE3, CHR 0x80, CHR 0x80] @ '' cd'' @ [CHR 0x09]) = [''ab'', ''cd'']"
  by (simp add: strings_eval)

lemma splitFrom_nonempty: "splitFrom sep cur s \<noteq> []"
  by (induction sep cur s rule: splitFrom.induct) (subst splitFrom.simps, simp)

lemma Join_Cons: "rest \<noteq> [] \<Longrightarrow> Join (e # rest) sep = e @ sep @ Join rest sep"
  by (cases rest) simp_all

lemma Join_splitFrom:
  "old \<noteq> [] \<Longrightarrow> Join (splitFrom old cur s) new = cur @ ReplaceAll s old new"
proof (induction old cur s rule: splitFrom.induct)
  case (1 sep cur s)
  show ?case
  proof (cases s)
    case Nil
    then show ?thesis by (simp add: splitFrom.simps ReplaceAll.simps)
  next
    case (Cons x xs)
    show ?thesis
    proof (cases "take (length sep) s = sep")
      case True
      have "Join (splitFrom sep cur s) new
          = Join (cur # splitFrom sep [] (drop (length sep) s)) new"
        using True Cons "1.prems" by (subst splitFrom.simps) simp
      also have "\<dots> = cur @ new @ Join (splitFrom sep [] (drop (length sep) s)) new"
        by (simp add: Join_Cons splitFrom_nonempty)
      also have "\<dots> = cur @ new @ ReplaceAll (drop (length sep) s) sep new"
        using "1.IH"(1) True Cons "1.prems" by simp
      also have "\<dots> = cur @ ReplaceAll s sep new"
        using True Cons "1.prems" by (subst (2) ReplaceAll.simps) simp
      finally show ?thesis .
    next
      case False
      have "Join (splitFrom sep cur s) new = Join (splitFrom sep (cur @ [x]) xs) new"
        using False Cons by (subst splitFrom.simps) simp
      also have "\<dots> = (cur @ [x]) @ ReplaceAll xs sep new"
        using "1.IH"(2) False Cons "1.prems" by simp
      also have "\<dots> = cur @ ReplaceAll s sep new"
        using False Cons by (subst (2) ReplaceAll.simps) simp
      finally show ?thesis .
    qed
  qed
qed

text \<open>
  \<^verbatim>\<open>ReplaceAll\<close> replaces every occurrence: its result is the pieces of the string
  between the occurrences of \<open>old\<close>, joined by \<open>new\<close>.
\<close>

lemma ReplaceAll_Join_Split:
  "old \<noteq> [] \<Longrightarrow> ReplaceAll s old new = Join (Split s old) new"
  by (simp add: Split_def Join_splitFrom)

lemma executeCommand_ok:
  assumes "\<forall>n. cmdFail (factory n args) = None"
  shows "\<exists>w1. executeCommand c factory args w = (None, w1) \<and>
           (executed w1 = executed w \<or> executed w1 = executed w @ [args]) \<and>
           (\<not> Interactive c \<longrightarrow> executed w1 = executed w @ [args])"
  using assms by (simp add: executeCommand_def runFactory_def Let_def)

lemma runSequential_upto:
  assumes "j \<le> length bs"
    and "\<forall>i<j. \<not> cx (BeforeBatch (k + i))"
    and "\<forall>i<j. \<forall>n. cmdFail (factory n (bs ! i)) = None"
  shows "\<exists>w'. runSequential c cx factory bs k w
             = runSequential c cx factory (drop j bs) (k + j) w' \<and>
           (\<exists>es. executed w' = executed w @ es \<and> subseq es (take j bs)) \<and>
           (\<not> Interactive c \<longrightarrow> executed w' = executed w @ take j bs)"
  using assms
proof (induction bs arbitrary: j k w)
  case Nil
  then show ?case by simp
next
  case (Cons b rest)
  show ?case
  proof (cases j)
    case 0
    then show ?thesis by (intro exI[of _ w]) simp
  next
    case (Suc j')
    have live: "\<not> cx (BeforeBatch k)" using Cons.prems(2) Suc by force
    have "\<forall>n. cmdFail (factory n b) = None" using Cons.prems(3) Suc by force
    then obtain w1 where w1: "executeCommand c factory b w = (None, w1)"
      and e1: "executed w1 = executed w \<or> executed w1 = executed w @ [b]"
      and n1: "\<not> Interactive c \<longrightarrow> executed w1 = executed w @ [b]"
      using executeCommand_ok[of factory b c w] by blast
    have step: "runSequential c cx factory (b # rest) k w
        = runSequential c cx factory rest (k + 1) w1"
      using live w1 by simp
    have p1: "j' \<le> length rest" using Cons.prems(1) Suc by simp
    have p2: "\<forall>i<j'. \<not> cx (BeforeBatch (k + 1 + i))"
      using Cons.prems(2) Suc by force
    have p3: "\<forall>i<j'. \<forall>n. cmdFail (factory n (rest ! i)) = None"
      using Cons.prems(3) Suc by force
    obtain w' es where r: "runSequential c cx factory rest (k + 1) w1
          = runSequential c cx factory (drop j' rest) (k + 1 + j') w'"
      and es: "executed w' = executed w1 @ es" "subseq es (take j' rest)"
      and ni: "\<not> Interactive c \<longrightarrow> executed w' = executed w1 @ take j' rest"
      using Cons.IH[OF p1 p2 p3, of w1] by blast
    have "\<exists>es'. executed w' = executed w @ es' \<and> subseq es' (b # take j' rest)"
    proof (cases "executed w1 = executed w")
      case True
      then show ?thesis using es by (intro exI[of _ es]) (simp add: list_emb_Cons)
    next
      case False
      then have "executed w1 = executed w @ [b]" using e1 by simp
      then show ?thesis using es by (intro exI[of _ "b # es"]) simp
    qed
    then show ?thesis
      using step r ni n1 Suc by (intro exI[of _ w']) simp
  qed
qed

lemma executeCommand_MaxLines:
  "executeCommand (c\<lparr>MaxLines := m\<rparr>) factory args w = executeCommand c factory args w"
  by (simp add: executeCommand_def)

lemma runSequential_MaxLines:
  "runSequential (c\<lparr>MaxLines := m\<rparr>) cx factory cmdLines k w
     = runSequential c cx factory cmdLines k w"
  by (induction cmdLines arbitrary: k w)
    (simp_all add: executeCommand_MaxLines split: prod.splits option.splits)

lemma readArgs_MaxLines:
  "readArgs (c\<lparr>MaxLines := m\<rparr>) cx input = readArgs c cx input"
  by (simp add: readArgs_def)

lemma groupArgs_MaxLines:
  "groupArgs (c\<lparr>MaxLines := m\<rparr>) args baseArgs = groupArgs c args baseArgs"
  unfolding groupArgs_def by (rule groupFrom_cong) simp_all

lemma executeParallel_MaxLines:
  "executeParallel workers (c\<lparr>MaxLines := m\<rparr>) cx factory cmdLines w
     = executeParallel workers c cx factory cmdLines w"
  by (simp add: executeParallel_def runSequential_MaxLines Let_def)

subsection \<open>C3: an empty token sequence\<close>

text \<open>
  C3, at an input where the code leaves the claim. The loop of \<^verbatim>\<open>groupArgs\<close> is
  not entered for an empty token sequence, so no batch is emitted whether
  \<^verbatim>\<open>NoRunEmpty\<close> is set or not: with the option unset, empty input and the
  registered command \<open>ls\<close> with the base argument \<open>-l\<close>, the run executes
  nothing and returns no error, where the claim has one batch of the base arguments.
\<close>

theorem empty_input_runs_nothing:
  "groupArgs c [] baseArgs = [] \<and>
   \<not> NoRunEmpty defaultFlags \<and>
   Execute workers [''ls'' \<mapsto> factory] \<lparr> Positional = [''ls'', ''-l''], Flags = defaultFlags \<rparr>
     (\<lambda>p. False) \<lparr> chunks = [], failure = None \<rparr> w = (None, w)"
  by (simp add: groupArgs_def Execute_def readArgs_def defaultFlags_def scanAll_def
      executeParallel_def)

subsection \<open>C5: the placeholder\<close>

text \<open>
  C5, at an input where the code leaves the claim. \<^verbatim>\<open>ReplaceStr\<close> is documented as
  the string to replace in the initial arguments (src/opt.go), and the line executor
  of src/command.go replaces it: for the fixed arguments \<open>-i\<close> and \<open>{}-{}\<close> and the
  line \<open>a b\<close> it appends no token and builds \<open>-i\<close>, \<open>a b-a b\<close>, both occurrences
  replaced by the tokens joined by a space. No function of src/xargs.go reads the
  option: for the same base arguments and tokens \<^verbatim>\<open>groupArgs\<close> leaves the
  placeholder as it is and appends the tokens, and that is what \<^verbatim>\<open>Execute\<close> hands
  to the command.
\<close>

theorem groupArgs_ignores_placeholder:
  "groupArgs (defaultFlags\<lparr>ReplaceStr := ''{}''\<rparr>) [''a'', ''b''] [''-i'', ''{}-{}'']
     = [[''-i'', ''{}-{}'', ''a'', ''b'']] \<and>
   executed (snd (Execute workers
       [''echo'' \<mapsto> (\<lambda>n args. \<lparr> cmdOut = [], cmdErr = [], cmdFail = None \<rparr>)]
       \<lparr> Positional = [''echo'', ''-i'', ''{}-{}''],
          Flags = defaultFlags\<lparr>ReplaceStr := ''{}''\<rparr> \<rparr>
       (\<lambda>p. False) \<lparr> chunks = [''a b''], failure = None \<rparr>
       \<lparr> stdout = [], stderr = [], executed = [], answers = [] \<rparr>))
     = [[''-i'', ''{}-{}'', ''a'', ''b'']] \<and>
   lineCmdArgs (defaultFlags\<lparr>ReplaceStr := ''{}''\<rparr>) [''-i'', ''{}-{}''] ''a b''
     = [''-i'', ''a b-a b'']"
proof -
  have g: "groupArgs (defaultFlags\<lparr>ReplaceStr := ''{}''\<rparr>) [''a'', ''b''] [''-i'', ''{}-{}'']
      = [[''-i'', ''{}-{}'', ''a'', ''b'']]"
    by (simp add: groupArgs_def defaultFlags_def groupFrom_go groupFrom_stop)
  have r: "readArgs (defaultFlags\<lparr>ReplaceStr := ''{}''\<rparr>) (\<lambda>p. False)
      \<lparr> chunks = [''a b''], failure = None \<rparr> = ([''a'', ''b''], None)"
    by (simp add: readArgs_def defaultFlags_def scanAll_def maxScanTokenSize_def dropCR_def
        strings_eval)
  have f: "\<not> NoRunEmpty defaultFlags" "MaxProcs defaultFlags = 1"
    "\<not> Print defaultFlags" "\<not> Interactive defaultFlags"
    by (simp_all add: defaultFlags_def)
  have e: "executed (snd (Execute workers
       [''echo'' \<mapsto> (\<lambda>n args. \<lparr> cmdOut = [], cmdErr = [], cmdFail = None \<rparr>)]
       \<lparr> Positional = [''echo'', ''-i'', ''{}-{}''],
          Flags = defaultFlags\<lparr>ReplaceStr := ''{}''\<rparr> \<rparr>
       (\<lambda>p. False) \<lparr> chunks = [''a b''], failure = None \<rparr>
       \<lparr> stdout = [], stderr = [], executed = [], answers = [] \<rparr>))
     = [[''-i'', ''{}-{}'', ''a'', ''b'']]"
    by (simp add: Execute_def r g f executeParallel_def executeCommand_def runFactory_def)
  have l: "lineCmdArgs (defaultFlags\<lparr>ReplaceStr := ''{}''\<rparr>) [''-i'', ''{}-{}''] ''a b''
     = [''-i'', ''a b-a b'']"
    by (simp add: lineCmdArgs_def lineInputArgs_def defaultFlags_def strings_eval
        ReplaceAll_match ReplaceAll_skip)
  show ?thesis using g e l by simp
qed

subsection \<open>C6: the tokens of the delimiter mode\<close>

text \<open>
  C6, at an input where the code leaves the claim. \<^verbatim>\<open>readArgs\<close> tests a fragment
  for emptiness before it trims it (lines 112 and 113), so the fragment of one space
  between the two commas passes the test and becomes an empty token.
\<close>

theorem readArgs_delimiter_empty_token:
  "readArgs (defaultFlags\<lparr>Delimiter := '',''\<rparr>) (\<lambda>p. False)
     \<lparr> chunks = [''a, ,b''], failure = None \<rparr> = ([''a'', [], ''b''], None)"
  by (simp add: readArgs_def defaultFlags_def readAllWithContext_def Split_def
      splitFrom_match splitFrom_skip strings_eval)

subsection \<open>C7: a command that is not registered\<close>

text \<open>
  C7. When the command name is not in the registry, \<^verbatim>\<open>Execute\<close> fails, hands no
  batch to any factory and writes nothing to the output sink, whatever the input and
  the options; the error is the command-not-found error when the context is not
  already cancelled at the entry, where line 53 returns first.
\<close>

theorem Execute_command_not_found:
  assumes "Positional cmd = cmdName # baseArgs" and "reg cmdName = None"
  shows "(\<not> cx AtEntry \<longrightarrow>
            fst (Execute workers reg cmd cx input w) = Some (CommandNotFound cmdName)) \<and>
         fst (Execute workers reg cmd cx input w) \<noteq> None \<and>
         executed (snd (Execute workers reg cmd cx input w)) = executed w \<and>
         stdout (snd (Execute workers reg cmd cx input w)) = stdout w"
  using assms by (simp add: Execute_def)

theorem Execute_command_not_found_witness:
  "fst (Execute (\<lambda>n p i cx f bs w. (None, w)) Map.empty
          \<lparr> Positional = [''nonexistent_command''], Flags = defaultFlags \<rparr>
          (\<lambda>p. False) \<lparr> chunks = [''test''], failure = None \<rparr>
          \<lparr> stdout = [], stderr = [], executed = [], answers = [] \<rparr>)
     = Some (CommandNotFound ''nonexistent_command'') \<and>
   executed (snd (Execute (\<lambda>n p i cx f bs w. (None, w)) Map.empty
          \<lparr> Positional = [''nonexistent_command''], Flags = defaultFlags \<rparr>
          (\<lambda>p. False) \<lparr> chunks = [''test''], failure = None \<rparr>
          \<lparr> stdout = [], stderr = [], executed = [], answers = [] \<rparr>)) = [] \<and>
   stdout (snd (Execute (\<lambda>n p i cx f bs w. (None, w)) Map.empty
          \<lparr> Positional = [''nonexistent_command''], Flags = defaultFlags \<rparr>
          (\<lambda>p. False) \<lparr> chunks = [''test''], failure = None \<rparr>
          \<lparr> stdout = [], stderr = [], executed = [], answers = [] \<rparr>)) = []"
  using Execute_command_not_found
    [where cmd = "\<lparr> Positional = [''nonexistent_command''], Flags = defaultFlags \<rparr>"
       and cmdName = "''nonexistent_command''" and baseArgs = "[]" and reg = Map.empty
       and cx = "\<lambda>p. False" and workers = "\<lambda>n p i cx f bs w. (None, w)"
       and input = "\<lparr> chunks = [''test''], failure = None \<rparr>"
       and w = "\<lparr> stdout = [], stderr = [], executed = [], answers = [] \<rparr>"]
  by simp

subsection \<open>C8: sequential dispatch and cancellation\<close>

text \<open>
  C8. When \<^verbatim>\<open>MaxProcs\<close> is at most 1 or there is at most one batch, the batches are
  executed one after the other in batch order, with a check of the context before
  each. If the check before batch \<open>j\<close> is the first to see the cancellation, and the
  commands of the batches before it return no error, the dispatcher returns the
  cancellation error and has executed batches of the first \<open>j\<close> only, in their order:
  all of them unless the interactive prompt skipped some. If no check sees a
  cancellation all batches are executed. A context cancelled at the entry of
  \<^verbatim>\<open>Execute\<close> yields the cancellation error and no execution.
\<close>

theorem sequential_dispatch_checks_cancellation:
  assumes seq: "MaxProcs c \<le> 1 \<or> length cmdLines \<le> 1"
  shows
    "(\<forall>j<length cmdLines.
        cx (BeforeBatch j) \<and> (\<forall>i<j. \<not> cx (BeforeBatch i)) \<and>
        (\<forall>i<j. \<forall>n. cmdFail (factory n (cmdLines ! i)) = None) \<longrightarrow>
        (\<exists>w'. executeParallel workers c cx factory cmdLines w = (Some Cancelled, w') \<and>
              (\<exists>es. executed w' = executed w @ es \<and> subseq es (take j cmdLines)) \<and>
              (\<not> Interactive c \<longrightarrow> executed w' = executed w @ take j cmdLines))) \<and>
     ((\<forall>i<length cmdLines. \<not> cx (BeforeBatch i) \<and>
          (\<forall>n. cmdFail (factory n (cmdLines ! i)) = None)) \<longrightarrow>
        (\<exists>w'. executeParallel workers c cx factory cmdLines w = (None, w') \<and>
              (\<exists>es. executed w' = executed w @ es \<and> subseq es cmdLines) \<and>
              (\<not> Interactive c \<longrightarrow> executed w' = executed w @ cmdLines))) \<and>
     (cx AtEntry \<longrightarrow> Execute workers reg cmd cx input w = (Some Cancelled, w))"
proof (intro conjI allI impI)
  fix j
  assume j: "j < length cmdLines"
    and h: "cx (BeforeBatch j) \<and> (\<forall>i<j. \<not> cx (BeforeBatch i)) \<and>
            (\<forall>i<j. \<forall>n. cmdFail (factory n (cmdLines ! i)) = None)"
  have ne: "cmdLines \<noteq> []" using j by auto
  have ep: "executeParallel workers c cx factory cmdLines w
      = runSequential c cx factory cmdLines 0 w"
    using seq ne by (cases cmdLines) (auto simp: executeParallel_def Let_def)
  obtain w' where r: "runSequential c cx factory cmdLines 0 w
        = runSequential c cx factory (drop j cmdLines) (0 + j) w'"
    and es: "\<exists>es. executed w' = executed w @ es \<and> subseq es (take j cmdLines)"
    and ni: "\<not> Interactive c \<longrightarrow> executed w' = executed w @ take j cmdLines"
    using runSequential_upto[of j cmdLines cx 0 factory c w] j h by auto
  have "drop j cmdLines = cmdLines ! j # drop (Suc j) cmdLines"
    using j by (simp add: Cons_nth_drop_Suc)
  then have "runSequential c cx factory (drop j cmdLines) (0 + j) w' = (Some Cancelled, w')"
    using h by simp
  then show "\<exists>w'. executeParallel workers c cx factory cmdLines w = (Some Cancelled, w') \<and>
      (\<exists>es. executed w' = executed w @ es \<and> subseq es (take j cmdLines)) \<and>
      (\<not> Interactive c \<longrightarrow> executed w' = executed w @ take j cmdLines)"
    using ep r es ni by (intro exI[of _ w']) simp
next
  assume h: "\<forall>i<length cmdLines. \<not> cx (BeforeBatch i) \<and>
      (\<forall>n. cmdFail (factory n (cmdLines ! i)) = None)"
  have ep: "executeParallel workers c cx factory cmdLines w
      = runSequential c cx factory cmdLines 0 w"
    using seq by (cases cmdLines) (auto simp: executeParallel_def Let_def)
  obtain w' where r: "runSequential c cx factory cmdLines 0 w
        = runSequential c cx factory (drop (length cmdLines) cmdLines) (0 + length cmdLines) w'"
    and es: "\<exists>es. executed w' = executed w @ es \<and> subseq es (take (length cmdLines) cmdLines)"
    and ni: "\<not> Interactive c \<longrightarrow> executed w' = executed w @ take (length cmdLines) cmdLines"
    using runSequential_upto[of "length cmdLines" cmdLines cx 0 factory c w] h by auto
  show "\<exists>w'. executeParallel workers c cx factory cmdLines w = (None, w') \<and>
      (\<exists>es. executed w' = executed w @ es \<and> subseq es cmdLines) \<and>
      (\<not> Interactive c \<longrightarrow> executed w' = executed w @ cmdLines)"
    using ep r es ni by (intro exI[of _ w']) simp
next
  assume "cx AtEntry"
  then show "Execute workers reg cmd cx input w = (Some Cancelled, w)"
    by (simp add: Execute_def)
qed

theorem sequential_dispatch_checks_cancellation_witness:
  "\<exists>w'. executeParallel (\<lambda>n p i cx f bs w. (None, w)) defaultFlags
           (\<lambda>p. case p of BeforeBatch k \<Rightarrow> 1 \<le> k | _ \<Rightarrow> False)
           (\<lambda>n args. \<lparr> cmdOut = ''executed'', cmdErr = [], cmdFail = None \<rparr>)
           [[''a''], [''b''], [''c'']]
           \<lparr> stdout = [], stderr = [], executed = [], answers = [] \<rparr>
         = (Some Cancelled, w') \<and> executed w' = [[''a'']]"
proof -
  have seq: "MaxProcs defaultFlags \<le> 1 \<or> length [[''a''], [''b''], [''c'']] \<le> 1"
    by (simp add: defaultFlags_def)
  show ?thesis
    using sequential_dispatch_checks_cancellation[OF seq,
      where cx = "\<lambda>p. case p of BeforeBatch k \<Rightarrow> 1 \<le> k | _ \<Rightarrow> False"
        and factory = "\<lambda>n args. \<lparr> cmdOut = ''executed'', cmdErr = [], cmdFail = None \<rparr>"
        and w = "\<lparr> stdout = [], stderr = [], executed = [], answers = [] \<rparr>"
        and workers = "\<lambda>n p i cx f bs w. (None, w)",
      THEN conjunct1, rule_format, of 1]
    by (auto simp: defaultFlags_def)
qed

subsection \<open>C10: the option \<^verbatim>\<open>MaxLines\<close>\<close>

text \<open>
  C10. Two configurations that differ in \<^verbatim>\<open>MaxLines\<close> only give the same tokens,
  the same batches and the same run: the same error, sinks and executions, whether
  the configuration is given as it is or through \<^verbatim>\<open>Xargs\<close>.
\<close>

theorem MaxLines_has_no_effect:
  "readArgs (c\<lparr>MaxLines := m\<rparr>) cx input = readArgs c cx input \<and>
   groupArgs (c\<lparr>MaxLines := m\<rparr>) args baseArgs = groupArgs c args baseArgs \<and>
   Execute workers reg (cmd\<lparr>Flags := (Flags cmd)\<lparr>MaxLines := m\<rparr>\<rparr>) cx input w
     = Execute workers reg cmd cx input w \<and>
   Execute workers reg (Xargs positional (fl\<lparr>MaxLines := m\<rparr>)) cx input w
     = Execute workers reg (Xargs positional fl) cx input w"
proof -
  have x: "Xargs positional (fl\<lparr>MaxLines := m\<rparr>)
      = (Xargs positional fl)\<lparr>Flags := (Flags (Xargs positional fl))\<lparr>MaxLines := m\<rparr>\<rparr>"
    by (simp add: Xargs_def Let_def)
  have e: "\<And>cmd. Execute workers reg (cmd\<lparr>Flags := (Flags cmd)\<lparr>MaxLines := m\<rparr>\<rparr>) cx input w
      = Execute workers reg cmd cx input w"
    by (simp add: Execute_def readArgs_MaxLines groupArgs_MaxLines executeParallel_MaxLines
        split: list.split option.split prod.split)
  show ?thesis
    unfolding x by (simp add: readArgs_MaxLines groupArgs_MaxLines e)
qed


theorem MaxLines_has_no_effect_witness:
  "Execute (\<lambda>n p i cx f bs w. (None, w))
     [''mock'' \<mapsto> (\<lambda>n args. \<lparr> cmdOut = ''executed'', cmdErr = [], cmdFail = None \<rparr>)]
     (Xargs [''mock''] (defaultFlags\<lparr>MaxLines := 5\<rparr>)) (\<lambda>p. False)
     \<lparr> chunks = [''arg1 arg2''], failure = None \<rparr>
     \<lparr> stdout = [], stderr = [], executed = [], answers = [] \<rparr>
   = Execute (\<lambda>n p i cx f bs w. (None, w))
     [''mock'' \<mapsto> (\<lambda>n args. \<lparr> cmdOut = ''executed'', cmdErr = [], cmdFail = None \<rparr>)]
     (Xargs [''mock''] defaultFlags) (\<lambda>p. False)
     \<lparr> chunks = [''arg1 arg2''], failure = None \<rparr>
     \<lparr> stdout = [], stderr = [], executed = [], answers = [] \<rparr>"
  by (rule conjunct2[OF conjunct2[OF conjunct2[OF MaxLines_has_no_effect]]])

end
